theory Spec2Isabelle
  imports Main "HOL-Library.Word" "HOL-Library.Monad_Syntax"
begin

section \<open>Stream operators of the document store (package stream, operator.go)\<close>

text \<open>
  The operators of operator.go are embedded over an explicit store of Environment
  frames: an \<^verbatim>\<open>*expr.Environment\<close> is an address, the frame it points to lives in the
  heap, and a closure returned by \<^verbatim>\<open>Op\<close> is a value holding its captured variables.
  Every function returns an option: \<open>None\<close> stands for a call that does not return
  (a failed type assertion, or a lookup that walks a cyclic chain of frames).
\<close>

subsection \<open>Values, errors, Environments\<close>

text \<open>
  Go's \<^verbatim>\<open>error\<close>: the sentinel \<^verbatim>\<open>ErrStreamClosed\<close> of the package, or any other error,
  identified by its message.
\<close>

datatype error = ErrStreamClosed | Err string

text \<open>
  Modelled from the spec: \<^verbatim>\<open>document.Value\<close> is not part of the sources at hand. The
  spec gives a tagged union of null, boolean, integer, double, text, blob, document and
  array; an integer is an int64, a double is kept as its 64 bits. \<open>Value0\<close> is Go's
  zero \<^verbatim>\<open>Value{}\<close>, returned along with \<^verbatim>\<open>ok = false\<close> by a failed lookup.
\<close>

datatype val =
    Value0
  | NullValue
  | BoolValue bool
  | IntegerValue "64 word"
  | DoubleValue "64 word"
  | TextValue string
  | BlobValue "8 word list"
  | DocumentValue "(string \<times> val) list"
  | ArrayValue "val list"

text \<open>\<^verbatim>\<open>v.Type == document.IntegerValue\<close> and the type assertion \<^verbatim>\<open>v.V.(int64)\<close>, which
  panics on anything but an int64.\<close>

fun is_IntegerValue :: "val \<Rightarrow> bool" where
  "is_IntegerValue (IntegerValue i) = True"
| "is_IntegerValue v = False"

fun assert_int64 :: "val \<Rightarrow> 64 word option" where
  "assert_int64 (IntegerValue i) = Some i"
| "assert_int64 v = None"

type_synonym addr = nat

text \<open>
  Modelled from the spec: \<^verbatim>\<open>expr.Environment\<close> is not part of the sources at hand. A
  frame holds local bindings from field names to values, one current-value slot, and an
  optional reference to an outer frame. The zero frame is what \<^verbatim>\<open>var newEnv
  expr.Environment\<close> and \<^verbatim>\<open>&expr.Environment{}\<close> create.
\<close>

record environment =
  Vars :: "string \<rightharpoonup> val"
  Current :: "val option"
  Outer :: "addr option"

definition zero_environment :: environment where
  "zero_environment = \<lparr>Vars = Map.empty, Current = None, Outer = None\<rparr>"

text \<open>The store: the frame at every address, and the number of addresses handed out.\<close>

record heap =
  frames :: "addr \<Rightarrow> environment"
  used :: nat

definition new_environment :: "heap \<Rightarrow> addr \<times> heap" where
  "new_environment h =
     (used h, h\<lparr>frames := (frames h)(used h := zero_environment), used := Suc (used h)\<rparr>)"

definition put_frame :: "addr \<Rightarrow> environment \<Rightarrow> heap \<Rightarrow> heap" where
  "put_frame a f h = h\<lparr>frames := (frames h)(a := f)\<rparr>"

text \<open>
  Modelled from the spec: the methods of Environment. \<open>Set\<close> binds a name in the local
  frame only and overwrites a prior local binding; \<open>SetCurrentValue\<close> writes the
  current-value slot; \<open>env_SetOuter\<close> is the assignment \<^verbatim>\<open>e.Outer = env\<close>.
\<close>

definition env_Set :: "addr \<Rightarrow> string \<Rightarrow> val \<Rightarrow> heap \<Rightarrow> heap" where
  "env_Set a name v h = put_frame a ((frames h a)\<lparr>Vars := (Vars (frames h a))(name \<mapsto> v)\<rparr>) h"

definition env_SetCurrentValue :: "addr \<Rightarrow> val \<Rightarrow> heap \<Rightarrow> heap" where
  "env_SetCurrentValue a v h = put_frame a ((frames h a)\<lparr>Current := Some v\<rparr>) h"

definition env_SetOuter :: "addr \<Rightarrow> addr \<Rightarrow> heap \<Rightarrow> heap" where
  "env_SetOuter a env h = put_frame a ((frames h a)\<lparr>Outer := Some env\<rparr>) h"

text \<open>
  Modelled from the spec: \<open>Get\<close> searches the local bindings, then recurses to the outer
  frame, and reports not found when the chain is exhausted. The source only ever passes
  the one-fragment path \<^verbatim>\<open>{FieldName: name}\<close>, so the lookup takes the field name. A
  chain without a cycle visits each allocated frame at most once; the walk is given
  that many outward moves, and one that needs more (a cyclic chain, on which the
  recursion would not end) is \<open>None\<close>.
\<close>

fun Get_walk :: "nat \<Rightarrow> heap \<Rightarrow> addr \<Rightarrow> string \<Rightarrow> (val \<times> bool) option" where
  "Get_walk n h a name =
     (case Vars (frames h a) name of
        Some v \<Rightarrow> Some (v, True)
      | None \<Rightarrow>
          (case Outer (frames h a) of
             None \<Rightarrow> Some (Value0, False)
           | Some outer \<Rightarrow>
               (case n of 0 \<Rightarrow> None | Suc k \<Rightarrow> Get_walk k h outer name)))"

declare Get_walk.simps [simp del]

definition env_Get :: "heap \<Rightarrow> addr \<Rightarrow> string \<Rightarrow> (val \<times> bool) option" where
  "env_Get h a name = Get_walk (used h) h a name"

text \<open>
  \<^verbatim>\<open>expr.Expr\<close> is an interface of another package; an expression is taken as its
  \<^verbatim>\<open>Eval\<close> method, a function that reads the store through the Environment it is given
  and returns a value or an error. The methods \<^verbatim>\<open>IsTruthy\<close> and \<^verbatim>\<open>CastAsInteger\<close> of
  \<^verbatim>\<open>document.Value\<close> are parameters as well.
\<close>

type_synonym expr = "heap \<Rightarrow> addr \<Rightarrow> error + val"

record value_methods =
  IsTruthy :: "val \<Rightarrow> error + bool"
  CastAsInteger :: "val \<Rightarrow> error + val"

subsection \<open>The reserved binding names\<close>

definition groupEnvKey :: string where
  "groupEnvKey = ''_group''"

definition accEnvKey :: string where
  "accEnvKey = ''_acc''"

subsection \<open>Step functions\<close>

text \<open>
  An \<^verbatim>\<open>OperatorFunc\<close> is a Go closure. Each constructor is one of the six closures
  returned by the \<^verbatim>\<open>Op\<close> methods, with the variables it captures: the operator's
  expression, the address of its \<^verbatim>\<open>newEnv\<close>, the int64 bound and counter.
\<close>

datatype OperatorFunc =
    MapFn expr addr
  | FilterFn expr
  | TakeFn "64 word" "64 word"
  | SkipFn "64 word" "64 word"
  | GroupByFn expr addr
  | ReduceFn addr

text \<open>
  One invocation of a step function on the Environment at \<open>env\<close>. The result is Go's
  pair \<^verbatim>\<open>(*expr.Environment, error)\<close>: \<open>Inl err\<close> for \<^verbatim>\<open>(nil, err)\<close>, \<open>Inr None\<close>
  for \<^verbatim>\<open>(nil, nil)\<close>, \<open>Inr (Some a)\<close> for \<^verbatim>\<open>(a, nil)\<close>. The closure is returned
  with its counters updated, next to the store.
\<close>

fun call ::
  "value_methods \<Rightarrow> OperatorFunc \<Rightarrow> addr \<Rightarrow> heap \<Rightarrow>
     ((error + addr option) \<times> OperatorFunc \<times> heap) option" where
  "call vm (MapFn E newEnv) env h =
     (case E h env of
        Inl err \<Rightarrow> Some (Inl err, MapFn E newEnv, h)
      | Inr v \<Rightarrow>
          Some (Inr (Some newEnv), MapFn E newEnv,
                env_SetOuter newEnv env (env_SetCurrentValue newEnv v h)))"
| "call vm (FilterFn E) env h =
     (case E h env of
        Inl err \<Rightarrow> Some (Inl err, FilterFn E, h)
      | Inr v \<Rightarrow>
          (case IsTruthy vm v of
             Inl err \<Rightarrow> Some (Inl err, FilterFn E, h)
           | Inr ok \<Rightarrow>
               if \<not> ok then Some (Inr None, FilterFn E, h)
               else Some (Inr (Some env), FilterFn E, h)))"
| "call vm (TakeFn n count) env h =
     (if count <s n then Some (Inr (Some env), TakeFn n (count + 1), h)
      else Some (Inl ErrStreamClosed, TakeFn n count, h))"
| "call vm (SkipFn n skipped) env h =
     (if skipped <s n then Some (Inr None, SkipFn n (skipped + 1), h)
      else Some (Inr (Some env), SkipFn n skipped, h))"
| "call vm (GroupByFn E newEnv) env h =
     (case E h env of
        Inl err \<Rightarrow> Some (Inl err, GroupByFn E newEnv, h)
      | Inr v \<Rightarrow>
          Some (Inr (Some newEnv), GroupByFn E newEnv,
                env_SetOuter newEnv env (env_Set newEnv groupEnvKey v h)))"
| "call vm (ReduceFn newEnv) env h =
     (case env_Get h newEnv accEnvKey of
        None \<Rightarrow> None
      | Some (v, ok) \<Rightarrow>
          Some (Inr (Some newEnv), ReduceFn newEnv,
                env_SetOuter newEnv env (env_SetCurrentValue newEnv v h)))"

text \<open>
  A step function invoked on the Environments of a sequence, one after the other, every
  result kept (whatever it is).
\<close>

fun feed ::
  "value_methods \<Rightarrow> OperatorFunc \<Rightarrow> addr list \<Rightarrow> heap \<Rightarrow>
     ((error + addr option) list \<times> OperatorFunc \<times> heap) option" where
  "feed vm f [] h = Some ([], f, h)"
| "feed vm f (env # rest) h =
     do {
       (r, f1, h1) \<leftarrow> call vm f env h;
       (rs, f2, h2) \<leftarrow> feed vm f1 rest h1;
       Some (r # rs, f2, h2)
     }"

subsection \<open>Streams\<close>

text \<open>
  The callbacks handed to \<^verbatim>\<open>Iterate\<close> are closures too: \<open>ReduceCb\<close> is the function
  literal of \<^verbatim>\<open>ReduceOperator.Op\<close> (capturing the accumulator expression and
  \<^verbatim>\<open>newEnv\<close>); \<open>StreamCb\<close> is the one a Stream wraps around its caller's callback
  (capturing the step function and that callback); \<open>Collect\<close> is a consumer that
  records each Environment it is handed, with the frame found there at that moment.
\<close>

datatype callback =
    ReduceCb expr addr
  | StreamCb (cb_opFn: OperatorFunc) (cb_fn: callback)
  | Collect "(addr \<times> environment) list"

text \<open>
  Modelled from the spec: the callback of a Stream (\<open>StreamCb\<close>); \<^verbatim>\<open>Stream.Iterate\<close>
  is not part of the sources at hand. It applies the step function to the Environment
  it is handed: an error ends the call with that error, a nil Environment skips the
  caller's callback, any other Environment is passed on to it. The equation of
  \<open>ReduceCb\<close> is the function literal in \<^verbatim>\<open>ReduceOperator.Op\<close>.
\<close>

fun call_cb ::
  "value_methods \<Rightarrow> callback \<Rightarrow> addr \<Rightarrow> heap \<Rightarrow> (error option \<times> callback \<times> heap) option" where
  "call_cb vm (ReduceCb Accumulator newEnv) env h =
     (let h1 = env_SetOuter newEnv env h in
      case Accumulator h1 newEnv of
        Inl err \<Rightarrow> Some (Some err, ReduceCb Accumulator newEnv, h1)
      | Inr v \<Rightarrow> Some (None, ReduceCb Accumulator newEnv, env_Set newEnv accEnvKey v h1))"
| "call_cb vm (StreamCb opFn fn) env h =
     do {
       (r, opFn1, h1) \<leftarrow> call vm opFn env h;
       case r of
         Inl err \<Rightarrow> Some (Some err, StreamCb opFn1 fn, h1)
       | Inr None \<Rightarrow> Some (None, StreamCb opFn1 fn, h1)
       | Inr (Some env1) \<Rightarrow>
           do {
             (err, fn1, h2) \<leftarrow> call_cb vm fn env1 h1;
             Some (err, StreamCb opFn1 fn1, h2)
           }
     }"
| "call_cb vm (Collect seen) env h = Some (None, Collect (seen @ [(env, frames h env)]), h)"

text \<open>
  Modelled from the spec: the source iterator of the storage layer, which is not part of
  the sources at hand. It hands its Environments to the callback in order, stops at the
  first error the callback returns, and otherwise ends with its own outcome.
\<close>

fun iterate_source ::
  "value_methods \<Rightarrow> addr list \<Rightarrow> error option \<Rightarrow> callback \<Rightarrow> heap \<Rightarrow>
     (error option \<times> callback \<times> heap) option" where
  "iterate_source vm [] outcome fn h = Some (outcome, fn, h)"
| "iterate_source vm (env # rest) outcome fn h =
     do {
       (err, fn1, h1) \<leftarrow> call_cb vm fn env h;
       case err of
         Some e \<Rightarrow> Some (Some e, fn1, h1)
       | None \<Rightarrow> iterate_source vm rest outcome fn1 h1
     }"

text \<open>
  Modelled from the spec: \<open>stream\<close>. The type \<^verbatim>\<open>Stream\<close> is not part of the sources
  at hand; operator.go builds it as \<^verbatim>\<open>Stream{it: s, op: op}\<close>, an underlying stream and
  one operator, and the spec has a source at the bottom. The type \<open>operator\<close> is the
  six operator structs of operator.go, each with its expressions, the Reduce with its
  sub-stream as well.
\<close>

datatype stream =
    Source "addr list" "error option"
  | Stream stream operator
and operator =
    MapOperator expr
  | FilterOperator expr
  | TakeOperator expr
  | SkipOperator expr
  | GroupByOperator expr
  | ReduceOperator expr expr stream

text \<open>
  \<^verbatim>\<open>ReduceOperator.Pipe\<close> stores \<open>s\<close> in the operator and returns a Stream over \<open>s\<close>
  with that operator.
\<close>

definition Pipe :: "expr \<Rightarrow> expr \<Rightarrow> stream \<Rightarrow> stream" where
  "Pipe Seed Accumulator s = Stream s (ReduceOperator Seed Accumulator s)"

subsection \<open>The Op methods\<close>

text \<open>
  Modelled from the spec: \<open>Iterate\<close>, for \<^verbatim>\<open>Stream.Iterate\<close>, which is not part of the
  sources at hand. A Stream asks its operator for the step function (an error of \<open>Op\<close>
  is the result of the traversal), traverses the underlying stream with its own
  callback around the caller's, and turns the stream-closed signal into success; any
  other error is returned. A traversal returns its callback in the state the calls have
  left it in; a Stream hands back its caller's callback (\<open>cb_fn\<close>).

  \<open>Op\<close> is the \<^verbatim>\<open>Op\<close> method of each operator of operator.go. The two are defined
  together because they call each other: \<^verbatim>\<open>ReduceOperator.Op\<close> drains its sub-stream.
\<close>

fun Iterate ::
  "value_methods \<Rightarrow> stream \<Rightarrow> callback \<Rightarrow> heap \<Rightarrow> (error option \<times> callback \<times> heap) option"
and Op ::
  "value_methods \<Rightarrow> operator \<Rightarrow> heap \<Rightarrow> ((error + OperatorFunc) \<times> heap) option" where
  "Iterate vm (Source items outcome) fn h = iterate_source vm items outcome fn h"
| "Iterate vm (Stream it op) fn h =
     do {
       (r, h1) \<leftarrow> Op vm op h;
       case r of
         Inl err \<Rightarrow> Some (Some err, fn, h1)
       | Inr opFn \<Rightarrow>
           do {
             (err, cb, h2) \<leftarrow> Iterate vm it (StreamCb opFn fn) h1;
             Some (if err = Some ErrStreamClosed then None else err, cb_fn cb, h2)
           }
     }"
| "Op vm (MapOperator E) h =
     (case new_environment h of (newEnv, h1) \<Rightarrow> Some (Inr (MapFn E newEnv), h1))"
| "Op vm (FilterOperator E) h = Some (Inr (FilterFn E), h)"
| "Op vm (TakeOperator E) h =
     (case new_environment h of (env0, h1) \<Rightarrow>
        (case E h1 env0 of
           Inl err \<Rightarrow> Some (Inl err, h1)
         | Inr v \<Rightarrow>
             (case (if \<not> is_IntegerValue v then CastAsInteger vm v else Inr v) of
                Inl err \<Rightarrow> Some (Inl err, h1)
              | Inr v1 \<Rightarrow>
                  (case assert_int64 v1 of
                     None \<Rightarrow> None
                   | Some n \<Rightarrow> Some (Inr (TakeFn n 0), h1)))))"
| "Op vm (SkipOperator E) h =
     (case new_environment h of (env0, h1) \<Rightarrow>
        (case E h1 env0 of
           Inl err \<Rightarrow> Some (Inl err, h1)
         | Inr v \<Rightarrow>
             (case (if \<not> is_IntegerValue v then CastAsInteger vm v else Inr v) of
                Inl err \<Rightarrow> Some (Inl err, h1)
              | Inr v1 \<Rightarrow>
                  (case assert_int64 v1 of
                     None \<Rightarrow> None
                   | Some n \<Rightarrow> Some (Inr (SkipFn n 0), h1)))))"
| "Op vm (GroupByOperator E) h =
     (case new_environment h of (newEnv, h1) \<Rightarrow> Some (Inr (GroupByFn E newEnv), h1))"
| "Op vm (ReduceOperator Seed Accumulator s) h =
     (case new_environment h of (newEnv, h1) \<Rightarrow>
        (case Seed h1 newEnv of
           Inl err \<Rightarrow> Some (Inl err, h1)
         | Inr seed \<Rightarrow>
             do {
               (err, cb, h2) \<leftarrow>
                 Iterate vm s (ReduceCb Accumulator newEnv) (env_Set newEnv accEnvKey seed h1);
               case err of
                 Some e \<Rightarrow> Some (Inl e, h2)
               | None \<Rightarrow> Some (Inr (ReduceFn newEnv), h2)
             }))"

subsection \<open>Notions used to state the properties\<close>

text \<open>
  The truth value of a predicate expression on an Environment: the expression is
  evaluated, then the value is converted; either step can fail. \<open>filter_result\<close> is
  what a filter owes its caller for that truth value.
\<close>

definition truthiness :: "value_methods \<Rightarrow> expr \<Rightarrow> heap \<Rightarrow> addr \<Rightarrow> error + bool" where
  "truthiness vm E h env = (case E h env of Inl err \<Rightarrow> Inl err | Inr v \<Rightarrow> IsTruthy vm v)"

definition filter_result :: "addr \<Rightarrow> error + bool \<Rightarrow> error + addr option" where
  "filter_result env t =
     (case t of Inl err \<Rightarrow> Inl err | Inr ok \<Rightarrow> if ok then Inr (Some env) else Inr None)"

text \<open>
  The spec's \<open>acc(a, v)\<close>: the accumulator expression evaluated in the frame of the
  Reduce operator, in which the reserved name is bound to \<open>a\<close> and whose outer frame is
  the Environment \<open>v\<close> of the sub-stream. \<open>fold_acc\<close> is the spec's left-to-right fold
  \<open>acc(acc(acc(seed, v1), v2), v3)\<close> over the Environments of the sub-stream; it stops
  at the first error.
\<close>

definition acc_frame :: "val \<Rightarrow> addr \<Rightarrow> environment" where
  "acc_frame a env = \<lparr>Vars = [accEnvKey \<mapsto> a], Current = None, Outer = Some env\<rparr>"

definition apply_acc :: "expr \<Rightarrow> addr \<Rightarrow> heap \<Rightarrow> val \<Rightarrow> addr \<Rightarrow> error + val" where
  "apply_acc Accumulator newEnv h a env = Accumulator (put_frame newEnv (acc_frame a env) h) newEnv"

fun fold_acc :: "expr \<Rightarrow> addr \<Rightarrow> heap \<Rightarrow> val \<Rightarrow> addr list \<Rightarrow> error + val" where
  "fold_acc Accumulator newEnv h a [] = Inr a"
| "fold_acc Accumulator newEnv h a (env # rest) =
     (case apply_acc Accumulator newEnv h a env of
        Inl err \<Rightarrow> Inl err
      | Inr a1 \<Rightarrow> fold_acc Accumulator newEnv h a1 rest)"





text \<open>
  The accumulator fails with the error \<open>e\<close> on an Environment that the sub-stream
  delivers. The three predicates follow the traversal to the call in question: in a
  call of a callback, the step functions on the way pass an Environment on and the
  callback of the Reduce, reached with it, evaluates the accumulator to \<open>e\<close>; in a
  source, this happens at the first Environment, or that call succeeds and it happens
  later; in a Stream, it happens in the underlying stream, traversed with the Stream's
  callback.
\<close>

fun fails_in_callback :: "value_methods \<Rightarrow> callback \<Rightarrow> addr \<Rightarrow> heap \<Rightarrow> error \<Rightarrow> bool" where
  "fails_in_callback vm (ReduceCb Accumulator newEnv) env h e =
     (Accumulator (env_SetOuter newEnv env h) newEnv = Inl e)"
| "fails_in_callback vm (StreamCb opFn fn) env h e =
     (case call vm opFn env h of
        Some (Inr (Some env1), opFn1, h1) \<Rightarrow> fails_in_callback vm fn env1 h1 e
      | _ \<Rightarrow> False)"
| "fails_in_callback vm (Collect seen) env h e = False"

fun fails_in_source :: "value_methods \<Rightarrow> addr list \<Rightarrow> callback \<Rightarrow> heap \<Rightarrow> error \<Rightarrow> bool" where
  "fails_in_source vm [] fn h e = False"
| "fails_in_source vm (env # rest) fn h e =
     (fails_in_callback vm fn env h e \<or>
      (case call_cb vm fn env h of
         Some (None, fn1, h1) \<Rightarrow> fails_in_source vm rest fn1 h1 e
       | _ \<Rightarrow> False))"

fun fails_in_drain :: "value_methods \<Rightarrow> stream \<Rightarrow> callback \<Rightarrow> heap \<Rightarrow> error \<Rightarrow> bool" where
  "fails_in_drain vm (Source items outcome) fn h e = fails_in_source vm items fn h e"
| "fails_in_drain vm (Stream it op) fn h e =
     (case Op vm op h of
        Some (Inr opFn, h1) \<Rightarrow> fails_in_drain vm it (StreamCb opFn fn) h1 e
      | _ \<Rightarrow> False)"

subsection \<open>Concrete inputs\<close>

text \<open>
  Inputs on which the theorems below are run: value methods in which booleans and
  integers have a truth value and cast to an integer, a store of five rows whose
  current values are the integers 1 to 5, and three expressions on a row: whether its
  current value exceeds 3, ten times its current value, the sum of the accumulator and
  the current value of the outer row, the accumulator plus one, and the current value
  itself as a group key.
\<close>

definition example_methods :: value_methods where
  "example_methods =
     \<lparr>IsTruthy = (\<lambda>v. case v of BoolValue b \<Rightarrow> Inr b
                              | IntegerValue i \<Rightarrow> Inr (i \<noteq> 0)
                              | _ \<Rightarrow> Inl (Err ''no truth value'')),
      CastAsInteger = (\<lambda>v. case v of IntegerValue i \<Rightarrow> Inr (IntegerValue i)
                              | BoolValue b \<Rightarrow> Inr (IntegerValue (if b then 1 else 0))
                              | _ \<Rightarrow> Inl (Err ''cannot cast to integer''))\<rparr>"

definition example_rows :: heap where
  "example_rows =
     \<lparr>frames = (\<lambda>a. \<lparr>Vars = Map.empty, Current = Some (IntegerValue (of_nat (Suc a))), Outer = None\<rparr>),
      used = 5\<rparr>"

definition example_gt3 :: expr where
  "example_gt3 h env =
     (case Current (frames h env) of
        Some (IntegerValue i) \<Rightarrow> Inr (BoolValue (3 <s i))
      | _ \<Rightarrow> Inl (Err ''no integer''))"

definition example_times_ten :: expr where
  "example_times_ten h env =
     (case Current (frames h env) of
        Some (IntegerValue i) \<Rightarrow> Inr (IntegerValue (i * 10))
      | _ \<Rightarrow> Inl (Err ''no integer''))"

definition example_sum :: expr where
  "example_sum h env =
     (case (env_Get h env accEnvKey, Outer (frames h env)) of
        (Some (IntegerValue a, True), Some row) \<Rightarrow>
          (case Current (frames h row) of
             Some (IntegerValue i) \<Rightarrow> Inr (IntegerValue (a + i))
           | _ \<Rightarrow> Inl (Err ''no integer''))
      | _ \<Rightarrow> Inl (Err ''no accumulator''))"



text \<open>
  Three constant expressions (the integer 0, true, and the stream-closed signal as an
  evaluation error), and a store of five rows whose current value is a document with
  the fields \<open>_group\<close> and \<open>_acc\<close>.
\<close>

definition example_zero :: expr where
  "example_zero h env = Inr (IntegerValue 0)"

definition example_true :: expr where
  "example_true h env = Inr (BoolValue True)"

definition example_closed :: expr where
  "example_closed h env = Inl ErrStreamClosed"


section \<open>Properties\<close>

subsection \<open>The store\<close>

lemma frames_put_frame: "frames (put_frame a f h) b = (if b = a then f else frames h b)"
  by (simp add: put_frame_def)

lemma used_put_frame: "used (put_frame a f h) = used h"
  by (simp add: put_frame_def)

lemma put_frame_put_frame: "put_frame a f (put_frame a g h) = put_frame a f h"
  by (simp add: put_frame_def)

lemma put_frame_same: "frames h a = f \<Longrightarrow> put_frame a f h = h"
  by (auto simp: put_frame_def)

lemma new_environment_frame:
  "new_environment h = (a, h1) \<Longrightarrow> a = used h \<and> frames h1 a = zero_environment \<and> used h1 = Suc (used h)"
  by (auto simp: new_environment_def)

lemma env_Get_local: "Vars (frames h a) name = Some v \<Longrightarrow> env_Get h a name = Some (v, True)"
  by (simp add: env_Get_def Get_walk.simps)













subsection \<open>Map\<close>

lemma call_MapFn_put:
  "E (put_frame newEnv fx h) env = Inr v \<Longrightarrow>
   call vm (MapFn E newEnv) env (put_frame newEnv fx h) =
     Some (Inr (Some newEnv), MapFn E newEnv,
           put_frame newEnv (fx\<lparr>Current := Some v, Outer := Some env\<rparr>) h)"
  by (simp add: env_SetOuter_def env_SetCurrentValue_def frames_put_frame put_frame_put_frame)

lemma iterate_source_MapFn:
  assumes "\<forall>env\<in>set S. E h env = Inr (g env) \<and> (\<forall>f. E (put_frame newEnv f h) env = E h env)"
  shows "\<exists>fy. iterate_source vm S outcome (StreamCb (MapFn E newEnv) (Collect seen))
            (put_frame newEnv fx h) =
     Some (outcome,
           StreamCb (MapFn E newEnv)
             (Collect (seen @ map (\<lambda>env. (newEnv, fx\<lparr>Current := Some (g env), Outer := Some env\<rparr>)) S)),
           put_frame newEnv fy h)"
  using assms
proof (induction S arbitrary: seen fx)
  case Nil
  then show ?case by auto
next
  case (Cons e S)
  from Cons.prems have e: "E (put_frame newEnv fx h) e = Inr (g e)" by simp
  from Cons.prems have rest:
    "\<forall>env\<in>set S. E h env = Inr (g env) \<and> (\<forall>f. E (put_frame newEnv f h) env = E h env)"
    by simp
  let ?fx = "fx\<lparr>Current := Some (g e), Outer := Some e\<rparr>"
  from Cons.IH [OF rest, of "seen @ [(newEnv, ?fx)]" ?fx]
  show ?case
    using call_MapFn_put [where E = E and vm = vm and newEnv = newEnv and fx = fx and h = h
        and env = e and v = "g e"] e
    by (auto simp: frames_put_frame simp del: call.simps)
qed

text \<open>
  C5. \<open>Op\<close> of a Map allocates one output frame and returns the step function over it.
  On every Environment the step function either returns the evaluation error of the
  expression and no Environment, or returns the output frame, whose current value is
  now the value of the expression on the incoming Environment and whose outer
  reference is that Environment; it never returns a nil Environment without an error.
  When the expression succeeds on every Environment of a sequence \<open>S\<close> (and does not
  read the output frame), a traversal of the Stream made of the source \<open>S\<close> and this
  operator hands its consumer one Environment per element of \<open>S\<close>, in order, each
  holding the value and the outer reference of its element.
\<close>

theorem MapOperator_one_per_input:
  assumes "new_environment h = (newEnv, h1)"
  shows "Op vm (MapOperator E) h = Some (Inr (MapFn E newEnv), h1) \<and>
   (\<forall>err. E h' env = Inl err \<longrightarrow>
      call vm (MapFn E newEnv) env h' = Some (Inl err, MapFn E newEnv, h')) \<and>
   (\<forall>v. E h' env = Inr v \<longrightarrow>
      call vm (MapFn E newEnv) env h' =
        Some (Inr (Some newEnv), MapFn E newEnv,
              put_frame newEnv ((frames h' newEnv)\<lparr>Current := Some v, Outer := Some env\<rparr>) h')) \<and>
   (\<forall>r f h''. call vm (MapFn E newEnv) env h' = Some (r, f, h'') \<longrightarrow> r \<noteq> Inr None) \<and>
   ((\<forall>env\<in>set S. E h1 env = Inr (g env) \<and> (\<forall>f. E (put_frame newEnv f h1) env = E h1 env)) \<longrightarrow>
      (\<exists>h2. Iterate vm (Stream (Source S None) (MapOperator E)) (Collect []) h =
         Some (None,
               Collect (map (\<lambda>env. (newEnv, \<lparr>Vars = Map.empty, Current = Some (g env),
                                               Outer = Some env\<rparr>)) S),
               h2)))"
proof -
  have op: "Op vm (MapOperator E) h = Some (Inr (MapFn E newEnv), h1)"
    using assms by simp
  have err: "\<forall>err. E h' env = Inl err \<longrightarrow>
      call vm (MapFn E newEnv) env h' = Some (Inl err, MapFn E newEnv, h')"
    by simp
  have ok: "\<forall>v. E h' env = Inr v \<longrightarrow>
      call vm (MapFn E newEnv) env h' =
        Some (Inr (Some newEnv), MapFn E newEnv,
              put_frame newEnv ((frames h' newEnv)\<lparr>Current := Some v, Outer := Some env\<rparr>) h')"
    by (simp add: env_SetOuter_def env_SetCurrentValue_def frames_put_frame put_frame_put_frame)
  have nofilter: "\<forall>r f h''. call vm (MapFn E newEnv) env h' = Some (r, f, h'') \<longrightarrow> r \<noteq> Inr None"
    by (auto split: sum.splits)
  have it: "\<exists>h2. Iterate vm (Stream (Source S None) (MapOperator E)) (Collect []) h =
         Some (None,
               Collect (map (\<lambda>env. (newEnv, \<lparr>Vars = Map.empty, Current = Some (g env),
                                               Outer = Some env\<rparr>)) S),
               h2)"
    if hyp: "\<forall>env\<in>set S. E h1 env = Inr (g env) \<and> (\<forall>f. E (put_frame newEnv f h1) env = E h1 env)"
  proof -
    from assms have "frames h1 newEnv = zero_environment"
      by (simp add: new_environment_frame)
    then have h1: "put_frame newEnv zero_environment h1 = h1"
      by (rule put_frame_same)
    from iterate_source_MapFn [OF hyp, of vm None "[]" zero_environment]
    obtain fy where
      "iterate_source vm S None (StreamCb (MapFn E newEnv) (Collect [])) h1 =
         Some (None,
           StreamCb (MapFn E newEnv)
             (Collect (map (\<lambda>env. (newEnv, zero_environment\<lparr>Current := Some (g env), Outer := Some env\<rparr>)) S)),
           put_frame newEnv fy h1)"
      using h1 by auto
    then show ?thesis using op by (simp add: zero_environment_def)
  qed
  show ?thesis using op err ok nofilter it by blast
qed

theorem MapOperator_one_per_input_witness:
  "Op example_methods (MapOperator example_times_ten) example_rows =
     Some (Inr (MapFn example_times_ten 5), snd (new_environment example_rows)) \<and>
   (\<exists>h2. Iterate example_methods (Stream (Source [1, 2] None) (MapOperator example_times_ten))
       (Collect []) example_rows =
     Some (None,
           Collect [(5, \<lparr>Vars = Map.empty, Current = Some (IntegerValue 20), Outer = Some 1\<rparr>),
                    (5, \<lparr>Vars = Map.empty, Current = Some (IntegerValue 30), Outer = Some 2\<rparr>)],
           h2))"
proof -
  have a: "new_environment example_rows = (5, snd (new_environment example_rows))"
    by (simp add: new_environment_def example_rows_def)
  have b: "\<forall>env\<in>set [1, 2].
             example_times_ten (snd (new_environment example_rows)) env
               = Inr (IntegerValue (of_nat (Suc env) * 10)) \<and>
             (\<forall>f. example_times_ten (put_frame 5 f (snd (new_environment example_rows))) env
                = example_times_ten (snd (new_environment example_rows)) env)"
    by (simp add: example_times_ten_def new_environment_def example_rows_def put_frame_def)
  from MapOperator_one_per_input [OF a, where vm = example_methods and E = example_times_ten
      and S = "[1, 2]" and g = "\<lambda>env. IntegerValue (of_nat (Suc env) * 10)"] b
  show ?thesis
    by (simp del: Iterate.simps Op.simps call.simps)
qed

subsection \<open>Filter\<close>

lemma call_FilterFn:
  "call vm (FilterFn E) env h =
     Some (filter_result env (truthiness vm E h env), FilterFn E, h)"
  by (simp add: truthiness_def filter_result_def split: sum.splits)

lemma feed_FilterFn:
  "feed vm (FilterFn E) S h =
     Some (map (\<lambda>env. filter_result env (truthiness vm E h env)) S, FilterFn E, h)"
  by (induction S) (simp_all add: call_FilterFn del: call.simps)

lemma iterate_source_FilterFn:
  assumes "\<forall>env\<in>set S. \<exists>ok. truthiness vm E h env = Inr ok"
  shows "iterate_source vm S outcome (StreamCb (FilterFn E) (Collect seen)) h =
     Some (outcome,
           StreamCb (FilterFn E)
             (Collect (seen @ map (\<lambda>e. (e, frames h e))
                                (filter (\<lambda>env. truthiness vm E h env = Inr True) S))),
           h)"
  using assms
proof (induction S arbitrary: seen)
  case Nil
  then show ?case by simp
next
  case (Cons e S)
  then obtain ok where ok: "truthiness vm E h e = Inr ok" by auto
  from Cons have rest: "\<forall>env\<in>set S. \<exists>ok. truthiness vm E h env = Inr ok" by simp
  show ?case
  proof (cases ok)
    case True
    with ok Cons.IH [OF rest, of "seen @ [(e, frames h e)]"] show ?thesis
      by (simp add: call_FilterFn filter_result_def del: call.simps)
  next
    case False
    with ok Cons.IH [OF rest, of seen] show ?thesis
      by (simp add: call_FilterFn filter_result_def del: call.simps)
  qed
qed

text \<open>
  C4. \<open>Op\<close> of a Filter allocates nothing. On an Environment on which the predicate is
  truthy the step function returns that very Environment, on one on which it is falsy a
  nil Environment, and an error of the evaluation or of the conversion to a truth value
  is returned as the error; the store is never touched. When the predicate has a truth
  value on every Environment of a sequence \<open>S\<close>, a traversal of the Stream made of the
  source \<open>S\<close> and this operator hands its consumer exactly the Environments of \<open>S\<close> on
  which the predicate is truthy, in order.
\<close>

theorem FilterOperator_subsequence:
  "Op vm (FilterOperator E) h = Some (Inr (FilterFn E), h) \<and>
   (\<forall>err. E h env = Inl err \<longrightarrow>
      call vm (FilterFn E) env h = Some (Inl err, FilterFn E, h)) \<and>
   (\<forall>v err. E h env = Inr v \<and> IsTruthy vm v = Inl err \<longrightarrow>
      call vm (FilterFn E) env h = Some (Inl err, FilterFn E, h)) \<and>
   (truthiness vm E h env = Inr True \<longrightarrow>
      call vm (FilterFn E) env h = Some (Inr (Some env), FilterFn E, h)) \<and>
   (truthiness vm E h env = Inr False \<longrightarrow>
      call vm (FilterFn E) env h = Some (Inr None, FilterFn E, h)) \<and>
   feed vm (FilterFn E) S h =
     Some (map (\<lambda>env. filter_result env (truthiness vm E h env)) S, FilterFn E, h) \<and>
   ((\<forall>env\<in>set S. \<exists>ok. truthiness vm E h env = Inr ok) \<longrightarrow>
      Iterate vm (Stream (Source S None) (FilterOperator E)) (Collect []) h =
        Some (None,
              Collect (map (\<lambda>e. (e, frames h e))
                         (filter (\<lambda>env. truthiness vm E h env = Inr True) S)),
              h))"
proof -
  have e1: "\<forall>err. E h env = Inl err \<longrightarrow>
      call vm (FilterFn E) env h = Some (Inl err, FilterFn E, h)"
    by simp
  have e2: "\<forall>v err. E h env = Inr v \<and> IsTruthy vm v = Inl err \<longrightarrow>
      call vm (FilterFn E) env h = Some (Inl err, FilterFn E, h)"
    by simp
  have t: "truthiness vm E h env = Inr True \<longrightarrow>
      call vm (FilterFn E) env h = Some (Inr (Some env), FilterFn E, h)"
    by (simp add: call_FilterFn filter_result_def del: call.simps)
  have f: "truthiness vm E h env = Inr False \<longrightarrow>
      call vm (FilterFn E) env h = Some (Inr None, FilterFn E, h)"
    by (simp add: call_FilterFn filter_result_def del: call.simps)
  have it: "Iterate vm (Stream (Source S None) (FilterOperator E)) (Collect []) h =
        Some (None,
              Collect (map (\<lambda>e. (e, frames h e))
                         (filter (\<lambda>env. truthiness vm E h env = Inr True) S)),
              h)"
    if "\<forall>env\<in>set S. \<exists>ok. truthiness vm E h env = Inr ok"
    using iterate_source_FilterFn [OF that, of None "[]"] by simp
  have op: "Op vm (FilterOperator E) h = Some (Inr (FilterFn E), h)"
    by simp
  show ?thesis
    using op e1 e2 t f it feed_FilterFn [of vm E S h] by blast
qed

theorem FilterOperator_subsequence_witness:
  "Op example_methods (FilterOperator example_gt3) example_rows =
     Some (Inr (FilterFn example_gt3), example_rows) \<and>
   call example_methods (FilterFn example_gt3) 4 example_rows =
     Some (Inr (Some 4), FilterFn example_gt3, example_rows) \<and>
   call example_methods (FilterFn example_gt3) 1 example_rows =
     Some (Inr None, FilterFn example_gt3, example_rows) \<and>
   Iterate example_methods (Stream (Source [0, 1, 2, 3, 4] None) (FilterOperator example_gt3))
       (Collect []) example_rows =
     Some (None,
           Collect [(3, \<lparr>Vars = Map.empty, Current = Some (IntegerValue 4), Outer = None\<rparr>),
                    (4, \<lparr>Vars = Map.empty, Current = Some (IntegerValue 5), Outer = None\<rparr>)],
           example_rows)"
proof -
  have t: "truthiness example_methods example_gt3 example_rows 0 = Inr False"
    "truthiness example_methods example_gt3 example_rows 1 = Inr False"
    "truthiness example_methods example_gt3 example_rows 2 = Inr False"
    "truthiness example_methods example_gt3 example_rows 3 = Inr True"
    "truthiness example_methods example_gt3 example_rows 4 = Inr True"
    by (simp_all add: truthiness_def example_gt3_def example_rows_def example_methods_def
        word_sless_alt)
  have f: "frames example_rows 3 = \<lparr>Vars = Map.empty, Current = Some (IntegerValue 4), Outer = None\<rparr>"
    "frames example_rows 4 = \<lparr>Vars = Map.empty, Current = Some (IntegerValue 5), Outer = None\<rparr>"
    by (simp_all add: example_rows_def)
  have "\<forall>env\<in>set [0, 1, 2, 3, 4]. \<exists>ok. truthiness example_methods example_gt3 example_rows env = Inr ok"
    using t by auto
  with FilterOperator_subsequence [where vm = example_methods and E = example_gt3
      and h = example_rows and env = 4 and S = "[0, 1, 2, 3, 4]"]
    FilterOperator_subsequence [where vm = example_methods and E = example_gt3
      and h = example_rows and env = 1 and S = "[0, 1, 2, 3, 4]"]
  show ?thesis
    using t f by (simp del: Iterate.simps Op.simps feed.simps call.simps)
qed

subsection \<open>The int64 counters of Take and Skip\<close>

lemma sint_succ: "c <s n \<Longrightarrow> sint (c + 1) = sint c + 1" for c n :: "64 word"
proof -
  assume "c <s n"
  then have "sint c < sint n" by (simp add: word_sless_alt)
  moreover have "sint n < 2 ^ 63" using sint_lt [of n] by simp
  moreover have "- (2 ^ 63) \<le> sint c" using sint_ge [of c] by simp
  ultimately have r: "- (2 ^ 63) \<le> sint c + 1" "sint c + 1 < 2 ^ 63" by linarith+
  have "sint (c + 1) = signed_take_bit 63 (sint c + sint (1 :: 64 word))"
    by (simp add: sint_word_ariths)
  also have "\<dots> = signed_take_bit 63 (sint c + 1)" by simp
  also have "\<dots> = sint c + 1"
    using r by (simp add: signed_take_bit_int_eq_self)
  finally show ?thesis .
qed

lemma remaining_Suc:
  fixes c n :: "64 word"
  assumes "c <s n"
  shows "nat (sint n - sint c) = Suc (nat (sint n - sint (c + 1)))"
proof -
  from assms have "sint c < sint n" by (simp add: word_sless_alt)
  then show ?thesis using sint_succ [OF assms] by (simp add: nat_eq_iff)
qed

lemma remaining_0:
  fixes c n :: "64 word"
  shows "\<not> c <s n \<Longrightarrow> nat (sint n - sint c) = 0"
  by (simp add: word_sless_alt)

lemma iterate_source_TakeFn:
  "\<exists>c'. iterate_source vm S outcome (StreamCb (TakeFn n c) (Collect seen)) h =
     Some (if nat (sint n - sint c) < length S then Some ErrStreamClosed else outcome,
           StreamCb (TakeFn n c')
             (Collect (seen @ map (\<lambda>a. (a, frames h a)) (take (nat (sint n - sint c)) S))),
           h)"
proof (induction S arbitrary: c seen)
  case Nil
  then show ?case by simp
next
  case (Cons e S)
  show ?case
  proof (cases "c <s n")
    case True
    from Cons.IH [of "c + 1" "seen @ [(e, frames h e)]"] show ?thesis
      using True by (auto simp: remaining_Suc [OF True])
  next
    case False
    then show ?thesis by (simp add: remaining_0)
  qed
qed

lemma feed_TakeFn:
  "\<exists>c'. feed vm (TakeFn n c) S h =
     Some (map (\<lambda>e. Inr (Some e)) (take (nat (sint n - sint c)) S)
             @ replicate (length S - nat (sint n - sint c)) (Inl ErrStreamClosed),
           TakeFn n c', h)"
proof (induction S arbitrary: c)
  case Nil
  then show ?case by simp
next
  case (Cons e S)
  show ?case
  proof (cases "c <s n")
    case True
    from Cons.IH [of "c + 1"] show ?thesis
      using True by (auto simp: remaining_Suc [OF True])
  next
    case False
    from Cons.IH [of c] show ?thesis
      using False by (auto simp: remaining_0)
  qed
qed

lemma feed_SkipFn:
  "\<exists>c'. feed vm (SkipFn n c) S h =
     Some (replicate (min (nat (sint n - sint c)) (length S)) (Inr None)
             @ map (\<lambda>e. Inr (Some e)) (drop (nat (sint n - sint c)) S),
           SkipFn n c', h)"
proof (induction S arbitrary: c)
  case Nil
  then show ?case by simp
next
  case (Cons e S)
  show ?case
  proof (cases "c <s n")
    case True
    from Cons.IH [of "c + 1"] show ?thesis
      using True by (auto simp: remaining_Suc [OF True])
  next
    case False
    from Cons.IH [of c] show ?thesis
      using False by (auto simp: remaining_0)
  qed
qed

lemma iterate_source_SkipFn:
  "\<exists>c'. iterate_source vm S outcome (StreamCb (SkipFn n c) (Collect seen)) h =
     Some (outcome,
           StreamCb (SkipFn n c')
             (Collect (seen @ map (\<lambda>a. (a, frames h a)) (drop (nat (sint n - sint c)) S))),
           h)"
proof (induction S arbitrary: c seen)
  case Nil
  then show ?case by simp
next
  case (Cons e S)
  show ?case
  proof (cases "c <s n")
    case True
    from Cons.IH [of "c + 1" seen] show ?thesis
      using True by (auto simp: remaining_Suc [OF True])
  next
    case False
    from Cons.IH [of c "seen @ [(e, frames h e)]"] show ?thesis
      using False by (auto simp: remaining_0)
  qed
qed

lemma feed_closed:
  "\<not> c <s n \<Longrightarrow>
     feed vm (TakeFn n c) S h = Some (replicate (length S) (Inl ErrStreamClosed), TakeFn n c, h)"
  by (induction S) simp_all

lemma feed_SkipFn_pass:
  "\<not> c <s n \<Longrightarrow>
     feed vm (SkipFn n c) S h = Some (map (\<lambda>e. Inr (Some e)) S, SkipFn n c, h)"
  by (induction S) simp_all

lemma Op_count:
  assumes "new_environment h = (env0, h1)"
    and "E h1 env0 = Inr v"
    and "v = IntegerValue n \<or> (\<not> is_IntegerValue v \<and> CastAsInteger vm v = Inr (IntegerValue n))"
  shows "Op vm (TakeOperator E) h = Some (Inr (TakeFn n 0), h1)"
    and "Op vm (SkipOperator E) h = Some (Inr (SkipFn n 0), h1)"
  using assms by auto

subsection \<open>Take\<close>

text \<open>
  C2. When the count expression of a Take, evaluated by \<open>Op\<close> against a fresh empty
  Environment, gives a non-negative integer \<open>n\<close> (directly or through
  \<open>CastAsInteger\<close>), the step function returned by \<open>Op\<close>, invoked on the Environments
  of any sequence \<open>S\<close> in turn, passes the first \<open>min n |S|\<close> of them through, each as
  the very Environment it was given and in the original order, and answers every later
  invocation with the stream-closed signal, the store left as it was. A traversal of
  the Stream made of the source \<open>S\<close> and this operator hands its consumer exactly these
  first Environments and ends without an error.
\<close>

theorem TakeOperator_first_n:
  assumes "new_environment h = (env0, h1)"
    and "E h1 env0 = Inr v"
    and "v = IntegerValue n \<or> (\<not> is_IntegerValue v \<and> CastAsInteger vm v = Inr (IntegerValue n))"
    and "0 \<le>s n"
  shows "Op vm (TakeOperator E) h = Some (Inr (TakeFn n 0), h1) \<and>
         (\<exists>c. feed vm (TakeFn n 0) S h' =
            Some (map (\<lambda>e. Inr (Some e)) (take (nat (sint n)) S)
                    @ replicate (length S - nat (sint n)) (Inl ErrStreamClosed),
                  TakeFn n c, h')) \<and>
         length (take (nat (sint n)) S) = min (nat (sint n)) (length S) \<and>
         Iterate vm (Stream (Source S None) (TakeOperator E)) (Collect []) h =
            Some (None, Collect (map (\<lambda>e. (e, frames h1 e)) (take (nat (sint n)) S)), h1)"
proof -
  have op: "Op vm (TakeOperator E) h = Some (Inr (TakeFn n 0), h1)"
    using assms(1-3) by (rule Op_count)
  have fd: "\<exists>c. feed vm (TakeFn n 0) S h' =
            Some (map (\<lambda>e. Inr (Some e)) (take (nat (sint n)) S)
                    @ replicate (length S - nat (sint n)) (Inl ErrStreamClosed),
                  TakeFn n c, h')"
    using feed_TakeFn [of vm n 0 S h'] by simp
  obtain c where
    "iterate_source vm S None (StreamCb (TakeFn n 0) (Collect [])) h1 =
       Some (if nat (sint n) < length S then Some ErrStreamClosed else None,
             StreamCb (TakeFn n c) (Collect (map (\<lambda>a. (a, frames h1 a)) (take (nat (sint n)) S))),
             h1)"
    using iterate_source_TakeFn [of vm S None n 0 "[]" h1] by auto
  then have it: "Iterate vm (Stream (Source S None) (TakeOperator E)) (Collect []) h =
            Some (None, Collect (map (\<lambda>e. (e, frames h1 e)) (take (nat (sint n)) S)), h1)"
    using op by simp
  show ?thesis using op fd it by simp
qed

theorem TakeOperator_first_n_witness:
  "Op example_methods (TakeOperator (\<lambda>h env. Inr (BoolValue True))) example_rows
     = Some (Inr (TakeFn 1 0), snd (new_environment example_rows)) \<and>
   (\<exists>c. feed example_methods (TakeFn 1 0) [0, 1, 2] example_rows =
      Some ([Inr (Some 0), Inl ErrStreamClosed, Inl ErrStreamClosed], TakeFn 1 c, example_rows)) \<and>
   Iterate example_methods (Stream (Source [0, 1, 2] None) (TakeOperator (\<lambda>h env. Inr (BoolValue True))))
       (Collect []) example_rows =
     Some (None, Collect [(0, \<lparr>Vars = Map.empty, Current = Some (IntegerValue 1), Outer = None\<rparr>)],
           snd (new_environment example_rows))"
proof -
  have a: "new_environment example_rows = (5, snd (new_environment example_rows))"
    by (simp add: new_environment_def example_rows_def)
  have b: "BoolValue True = IntegerValue 1 \<or>
           (\<not> is_IntegerValue (BoolValue True) \<and>
            CastAsInteger example_methods (BoolValue True) = Inr (IntegerValue 1))"
    by (simp add: example_methods_def)
  have c: "(0 :: 64 word) \<le>s 1"
    by (simp add: word_sle_eq)
  have d: "frames (snd (new_environment example_rows)) 0 =
             \<lparr>Vars = Map.empty, Current = Some (IntegerValue 1), Outer = None\<rparr>"
    by (simp add: new_environment_def example_rows_def)
  show ?thesis
    using TakeOperator_first_n [OF a refl b c, of "[0, 1, 2]" example_rows] d
    by (simp del: Iterate.simps Op.simps feed.simps)
qed

subsection \<open>Skip\<close>

text \<open>
  C3. When the count expression of a Skip gives the integer \<open>n\<close>, the step function
  returned by \<open>Op\<close>, invoked on the Environments of any sequence \<open>S\<close> in turn, returns
  a nil Environment for the first \<open>min n |S|\<close> of them (none when \<open>n\<close> is negative) and
  returns every later one as it was given, in order, the store left as it was. A
  traversal of the Stream made of the source \<open>S\<close> and this operator hands its consumer
  exactly \<open>S\<close> without these first Environments.
\<close>

theorem SkipOperator_drops_n:
  assumes "new_environment h = (env0, h1)"
    and "E h1 env0 = Inr v"
    and "v = IntegerValue n \<or> (\<not> is_IntegerValue v \<and> CastAsInteger vm v = Inr (IntegerValue n))"
  shows "Op vm (SkipOperator E) h = Some (Inr (SkipFn n 0), h1) \<and>
         (\<exists>c. feed vm (SkipFn n 0) S h' =
            Some (replicate (min (nat (sint n)) (length S)) (Inr None)
                    @ map (\<lambda>e. Inr (Some e)) (drop (nat (sint n)) S),
                  SkipFn n c, h')) \<and>
         Iterate vm (Stream (Source S None) (SkipOperator E)) (Collect []) h =
            Some (None, Collect (map (\<lambda>e. (e, frames h1 e)) (drop (nat (sint n)) S)), h1)"
proof -
  have op: "Op vm (SkipOperator E) h = Some (Inr (SkipFn n 0), h1)"
    using assms by (rule Op_count)
  have fd: "\<exists>c. feed vm (SkipFn n 0) S h' =
            Some (replicate (min (nat (sint n)) (length S)) (Inr None)
                    @ map (\<lambda>e. Inr (Some e)) (drop (nat (sint n)) S),
                  SkipFn n c, h')"
    using feed_SkipFn [of vm n 0 S h'] by simp
  obtain c where
    "iterate_source vm S None (StreamCb (SkipFn n 0) (Collect [])) h1 =
       Some (None,
             StreamCb (SkipFn n c) (Collect (map (\<lambda>a. (a, frames h1 a)) (drop (nat (sint n)) S))),
             h1)"
    using iterate_source_SkipFn [of vm S None n 0 "[]" h1] by auto
  then have it: "Iterate vm (Stream (Source S None) (SkipOperator E)) (Collect []) h =
            Some (None, Collect (map (\<lambda>e. (e, frames h1 e)) (drop (nat (sint n)) S)), h1)"
    using op by simp
  show ?thesis using op fd it by simp
qed

theorem SkipOperator_drops_n_witness:
  "Op example_methods (SkipOperator (\<lambda>h env. Inr (IntegerValue 2))) example_rows
     = Some (Inr (SkipFn 2 0), snd (new_environment example_rows)) \<and>
   (\<exists>c. feed example_methods (SkipFn 2 0) [0, 1, 2] example_rows =
      Some ([Inr None, Inr None, Inr (Some 2)], SkipFn 2 c, example_rows)) \<and>
   Iterate example_methods (Stream (Source [0, 1, 2] None) (SkipOperator (\<lambda>h env. Inr (IntegerValue 2))))
       (Collect []) example_rows =
     Some (None, Collect [(2, \<lparr>Vars = Map.empty, Current = Some (IntegerValue 3), Outer = None\<rparr>)],
           snd (new_environment example_rows))"
proof -
  have a: "new_environment example_rows = (5, snd (new_environment example_rows))"
    by (simp add: new_environment_def example_rows_def)
  have d: "frames (snd (new_environment example_rows)) 2 =
             \<lparr>Vars = Map.empty, Current = Some (IntegerValue 3), Outer = None\<rparr>"
    by (simp add: new_environment_def example_rows_def)
  have e: "replicate 2 x = [x, x]" for x :: "error + addr option"
    by (simp add: numeral_2_eq_2)
  show ?thesis
    using SkipOperator_drops_n [OF a, where E = "\<lambda>h env. Inr (IntegerValue 2)"
        and v = "IntegerValue 2" and n = 2 and vm = example_methods
        and S = "[0, 1, 2]" and h' = example_rows] d e
    by (simp del: Iterate.simps Op.simps feed.simps)
qed

subsection \<open>An exhausted Take\<close>

text \<open>
  C8. Once the step function of a Take has returned the stream-closed signal, it is
  unchanged, and so is the store: every later invocation returns the stream-closed
  signal again, and a further traversal driven through this same step function hands
  nothing to its consumer.
\<close>

theorem TakeFn_stays_closed:
  assumes "call vm (TakeFn n c) env h = Some (Inl ErrStreamClosed, f, h')"
  shows "f = TakeFn n c \<and> h' = h \<and>
         feed vm f S h' = Some (replicate (length S) (Inl ErrStreamClosed), f, h') \<and>
         iterate_source vm S None (StreamCb f (Collect [])) h' =
           Some (if S = [] then None else Some ErrStreamClosed, StreamCb f (Collect []), h')"
proof -
  from assms have nlt: "\<not> c <s n" and f: "f = TakeFn n c" and h: "h' = h"
    by (auto split: if_splits)
  have "iterate_source vm S None (StreamCb (TakeFn n c) (Collect [])) h =
          Some (if S = [] then None else Some ErrStreamClosed, StreamCb (TakeFn n c) (Collect []), h)"
    using nlt by (cases S) simp_all
  then show ?thesis using f h feed_closed [OF nlt] by simp
qed

theorem TakeFn_stays_closed_witness:
  "feed example_methods (TakeFn 1 1) [3, 4] example_rows =
     Some ([Inl ErrStreamClosed, Inl ErrStreamClosed], TakeFn 1 1, example_rows) \<and>
   iterate_source example_methods [3, 4] None (StreamCb (TakeFn 1 1) (Collect [])) example_rows =
     Some (Some ErrStreamClosed, StreamCb (TakeFn 1 1) (Collect []), example_rows)"
proof -
  have "call example_methods (TakeFn 1 1) 2 example_rows =
          Some (Inl ErrStreamClosed, TakeFn 1 1, example_rows)"
    by (simp add: word_sless_alt)
  from TakeFn_stays_closed [OF this, of "[3, 4]"] show ?thesis
    by (simp del: feed.simps iterate_source.simps)
qed

subsection \<open>Counts that are not positive\<close>

text \<open>
  C9. When the count expression gives an integer \<open>n \<le> 0\<close>, the step function of Take
  returns the stream-closed signal on its first invocation, and the step function of
  Skip returns every Environment as it was given, from the first invocation on.
\<close>

theorem nonpositive_count:
  assumes "new_environment h = (env0, h1)"
    and "E h1 env0 = Inr v"
    and "v = IntegerValue n \<or> (\<not> is_IntegerValue v \<and> CastAsInteger vm v = Inr (IntegerValue n))"
    and "n \<le>s 0"
  shows "Op vm (TakeOperator E) h = Some (Inr (TakeFn n 0), h1) \<and>
         call vm (TakeFn n 0) env h' = Some (Inl ErrStreamClosed, TakeFn n 0, h') \<and>
         Op vm (SkipOperator E) h = Some (Inr (SkipFn n 0), h1) \<and>
         feed vm (SkipFn n 0) S h' = Some (map (\<lambda>e. Inr (Some e)) S, SkipFn n 0, h')"
proof -
  from assms(4) have nlt: "\<not> 0 <s n"
    by (simp add: word_sle_eq word_sless_alt)
  have t: "Op vm (TakeOperator E) h = Some (Inr (TakeFn n 0), h1)"
    using assms(1-3) by (rule Op_count)
  have s: "Op vm (SkipOperator E) h = Some (Inr (SkipFn n 0), h1)"
    using assms(1-3) by (rule Op_count)
  show ?thesis
    using t s nlt feed_SkipFn_pass [OF nlt] by simp
qed

theorem nonpositive_count_witness:
  "Op example_methods (TakeOperator (\<lambda>h env. Inr (IntegerValue (- 3)))) example_rows =
     Some (Inr (TakeFn (- 3) 0), snd (new_environment example_rows)) \<and>
   call example_methods (TakeFn (- 3) 0) 0 example_rows =
     Some (Inl ErrStreamClosed, TakeFn (- 3) 0, example_rows) \<and>
   Op example_methods (SkipOperator (\<lambda>h env. Inr (IntegerValue (- 3)))) example_rows =
     Some (Inr (SkipFn (- 3) 0), snd (new_environment example_rows)) \<and>
   feed example_methods (SkipFn (- 3) 0) [0, 1] example_rows =
     Some ([Inr (Some 0), Inr (Some 1)], SkipFn (- 3) 0, example_rows)"
proof -
  have a: "new_environment example_rows = (5, snd (new_environment example_rows))"
    by (simp add: new_environment_def example_rows_def)
  have c: "(- 3 :: 64 word) \<le>s 0"
    by (simp add: word_sle_eq)
  show ?thesis
    using nonpositive_count [OF a _ _ c, where E = "\<lambda>h env. Inr (IntegerValue (- 3))"
        and v = "IntegerValue (- 3)" and vm = example_methods and env = 0
        and h' = example_rows and S = "[0, 1]"]
    by (simp del: Op.simps feed.simps call.simps)
qed

subsection \<open>The count expression of Take and Skip\<close>

text \<open>
  C7. \<open>Op\<close> of a Take or a Skip evaluates the count expression against a fresh
  Environment, which is empty, and nowhere else: two expressions that agree there give
  the same result of \<open>Op\<close>, whatever they are elsewhere. An evaluation error, or the
  error of \<open>CastAsInteger\<close> on a value that is not an integer, is the result of \<open>Op\<close>,
  and then there is no step function. A step function that \<open>Op\<close> returns holds an
  integer and a counter at zero, and not the expression; the integer is the one the
  expression gave there, directly or through \<open>CastAsInteger\<close>.
\<close>

theorem count_evaluated_at_construction:
  assumes "new_environment h = (env0, h1)"
  shows "frames h1 env0 = zero_environment \<and>
   (\<forall>E'. E' h1 env0 = E h1 env0 \<longrightarrow>
      Op vm (TakeOperator E') h = Op vm (TakeOperator E) h \<and>
      Op vm (SkipOperator E') h = Op vm (SkipOperator E) h) \<and>
   (\<forall>err. E h1 env0 = Inl err \<longrightarrow>
      Op vm (TakeOperator E) h = Some (Inl err, h1) \<and>
      Op vm (SkipOperator E) h = Some (Inl err, h1)) \<and>
   (\<forall>v err. E h1 env0 = Inr v \<and> \<not> is_IntegerValue v \<and> CastAsInteger vm v = Inl err \<longrightarrow>
      Op vm (TakeOperator E) h = Some (Inl err, h1) \<and>
      Op vm (SkipOperator E) h = Some (Inl err, h1)) \<and>
   (\<forall>f h2. Op vm (TakeOperator E) h = Some (Inr f, h2) \<longrightarrow> (\<exists>n. f = TakeFn n 0)) \<and>
   (\<forall>f h2. Op vm (SkipOperator E) h = Some (Inr f, h2) \<longrightarrow> (\<exists>n. f = SkipFn n 0)) \<and>
   (\<forall>v n. E h1 env0 = Inr v \<and>
      (v = IntegerValue n \<or> (\<not> is_IntegerValue v \<and> CastAsInteger vm v = Inr (IntegerValue n))) \<longrightarrow>
      Op vm (TakeOperator E) h = Some (Inr (TakeFn n 0), h1) \<and>
      Op vm (SkipOperator E) h = Some (Inr (SkipFn n 0), h1))"
proof -
  have z: "frames h1 env0 = zero_environment"
    using assms by (simp add: new_environment_frame)
  have same: "\<forall>E'. E' h1 env0 = E h1 env0 \<longrightarrow>
      Op vm (TakeOperator E') h = Op vm (TakeOperator E) h \<and>
      Op vm (SkipOperator E') h = Op vm (SkipOperator E) h"
    using assms by simp
  have ev: "\<forall>err. E h1 env0 = Inl err \<longrightarrow>
      Op vm (TakeOperator E) h = Some (Inl err, h1) \<and>
      Op vm (SkipOperator E) h = Some (Inl err, h1)"
    using assms by simp
  have cast: "\<forall>v err. E h1 env0 = Inr v \<and> \<not> is_IntegerValue v \<and> CastAsInteger vm v = Inl err \<longrightarrow>
      Op vm (TakeOperator E) h = Some (Inl err, h1) \<and>
      Op vm (SkipOperator E) h = Some (Inl err, h1)"
    using assms by simp
  have t: "\<forall>f h2. Op vm (TakeOperator E) h = Some (Inr f, h2) \<longrightarrow> (\<exists>n. f = TakeFn n 0)"
    using assms by (auto split: sum.splits option.splits if_splits)
  have s: "\<forall>f h2. Op vm (SkipOperator E) h = Some (Inr f, h2) \<longrightarrow> (\<exists>n. f = SkipFn n 0)"
    using assms by (auto split: sum.splits option.splits if_splits)
  have cnt: "Op vm (TakeOperator E) h = Some (Inr (TakeFn n 0), h1) \<and>
      Op vm (SkipOperator E) h = Some (Inr (SkipFn n 0), h1)"
    if "E h1 env0 = Inr v \<and>
      (v = IntegerValue n \<or> (\<not> is_IntegerValue v \<and> CastAsInteger vm v = Inr (IntegerValue n)))"
    for v n
  proof -
    from that have e: "E h1 env0 = Inr v"
      and c: "v = IntegerValue n \<or> (\<not> is_IntegerValue v \<and> CastAsInteger vm v = Inr (IntegerValue n))"
      by blast+
    have "Op vm (TakeOperator E) h = Some (Inr (TakeFn n 0), h1)"
      using assms e c by (rule Op_count)
    moreover have "Op vm (SkipOperator E) h = Some (Inr (SkipFn n 0), h1)"
      using assms e c by (rule Op_count)
    ultimately show ?thesis by blast
  qed
  show ?thesis using z same ev cast t s cnt by blast
qed

theorem count_evaluated_at_construction_witness:
  "frames (snd (new_environment example_rows)) 5 = zero_environment \<and>
   Op example_methods (TakeOperator (\<lambda>h env. Inr (TextValue ''two''))) example_rows =
     Some (Inl (Err ''cannot cast to integer''), snd (new_environment example_rows)) \<and>
   Op example_methods (SkipOperator (\<lambda>h env. Inr (TextValue ''two''))) example_rows =
     Some (Inl (Err ''cannot cast to integer''), snd (new_environment example_rows)) \<and>
   Op example_methods
      (TakeOperator (\<lambda>h env. if Current (frames h env) = None then Inr (IntegerValue 2)
                              else Inl (Err ''row-dependent''))) example_rows =
     Op example_methods (TakeOperator (\<lambda>h env. Inr (IntegerValue 2))) example_rows \<and>
   Op example_methods (TakeOperator (\<lambda>h env. Inr (IntegerValue 2))) example_rows =
     Some (Inr (TakeFn 2 0), snd (new_environment example_rows)) \<and>
   Op example_methods (SkipOperator (\<lambda>h env. Inr (BoolValue True))) example_rows =
     Some (Inr (SkipFn 1 0), snd (new_environment example_rows))"
proof -
  have a: "new_environment example_rows = (5, snd (new_environment example_rows))"
    by (simp add: new_environment_def example_rows_def)
  have c: "CastAsInteger example_methods (TextValue ''two'') = Inl (Err ''cannot cast to integer'')"
    by (simp add: example_methods_def)
  have d: "(if Current (frames (snd (new_environment example_rows)) 5) = None
            then Inr (IntegerValue 2) else Inl (Err ''row-dependent'')) = Inr (IntegerValue 2)"
    by (simp add: new_environment_def zero_environment_def example_rows_def)
  note two = count_evaluated_at_construction [OF a, where vm = example_methods
      and E = "\<lambda>h env. Inr (TextValue ''two'')"]
  note const = count_evaluated_at_construction [OF a, where vm = example_methods
      and E = "\<lambda>h env. Inr (IntegerValue 2)"]
  have z: "frames (snd (new_environment example_rows)) 5 = zero_environment"
    using two by (rule conjunct1)
  have cast: "Op example_methods (TakeOperator (\<lambda>h env. Inr (TextValue ''two''))) example_rows =
       Some (Inl (Err ''cannot cast to integer''), snd (new_environment example_rows)) \<and>
     Op example_methods (SkipOperator (\<lambda>h env. Inr (TextValue ''two''))) example_rows =
       Some (Inl (Err ''cannot cast to integer''), snd (new_environment example_rows))"
    using two [THEN conjunct2, THEN conjunct2, THEN conjunct2, THEN conjunct1, THEN spec,
        THEN spec, of "TextValue ''two''" "Err ''cannot cast to integer''"] c
    by (simp del: Op.simps)
  have once: "Op example_methods
      (TakeOperator (\<lambda>h env. if Current (frames h env) = None then Inr (IntegerValue 2)
                              else Inl (Err ''row-dependent''))) example_rows =
     Op example_methods (TakeOperator (\<lambda>h env. Inr (IntegerValue 2))) example_rows"
    using const [THEN conjunct2, THEN conjunct1, THEN spec,
        of "\<lambda>h env. if Current (frames h env) = None then Inr (IntegerValue 2)
                              else Inl (Err ''row-dependent'')"] d
    by (simp del: Op.simps)
  note true = count_evaluated_at_construction [OF a, where vm = example_methods
      and E = "\<lambda>h env. Inr (BoolValue True)"]
  have held: "Op example_methods (TakeOperator (\<lambda>h env. Inr (IntegerValue 2))) example_rows =
       Some (Inr (TakeFn 2 0), snd (new_environment example_rows))"
    using const [THEN conjunct2, THEN conjunct2, THEN conjunct2, THEN conjunct2, THEN conjunct2,
        THEN conjunct2, THEN spec, THEN spec, of "IntegerValue 2" 2]
    by (simp del: Op.simps)
  have c1: "CastAsInteger example_methods (BoolValue True) = Inr (IntegerValue 1)"
    by (simp add: example_methods_def)
  have cast_held: "Op example_methods (SkipOperator (\<lambda>h env. Inr (BoolValue True))) example_rows =
       Some (Inr (SkipFn 1 0), snd (new_environment example_rows))"
    using true [THEN conjunct2, THEN conjunct2, THEN conjunct2, THEN conjunct2, THEN conjunct2,
        THEN conjunct2, THEN spec, THEN spec, of "BoolValue True" 1] c1
    by (simp del: Op.simps)
  show ?thesis using z cast once held cast_held by (simp del: Op.simps)
qed

subsection \<open>Reduce\<close>

lemma call_cb_ReduceCb:
  assumes "Vars fx = [accEnvKey \<mapsto> a]" and "Current fx = None"
  shows "call_cb vm (ReduceCb Acc newEnv) env (put_frame newEnv fx h) =
     (case apply_acc Acc newEnv h a env of
        Inl err \<Rightarrow> Some (Some err, ReduceCb Acc newEnv, put_frame newEnv (acc_frame a env) h)
      | Inr a1 \<Rightarrow> Some (None, ReduceCb Acc newEnv,
                        put_frame newEnv \<lparr>Vars = [accEnvKey \<mapsto> a1], Current = None, Outer = Some env\<rparr> h))"
proof -
  have "fx\<lparr>Outer := Some env\<rparr> = acc_frame a env"
    using assms by (simp add: acc_frame_def)
  then have "env_SetOuter newEnv env (put_frame newEnv fx h) = put_frame newEnv (acc_frame a env) h"
    by (simp add: env_SetOuter_def frames_put_frame put_frame_put_frame)
  then show ?thesis
    by (simp add: apply_acc_def env_Set_def frames_put_frame put_frame_put_frame acc_frame_def
        split: sum.splits)
qed

lemma iterate_source_ReduceCb:
  assumes "Vars fx = [accEnvKey \<mapsto> a]" and "Current fx = None"
  shows "\<exists>fy. iterate_source vm items outcome (ReduceCb Acc newEnv) (put_frame newEnv fx h) =
           Some (case fold_acc Acc newEnv h a items of Inl err \<Rightarrow> Some err | Inr a1 \<Rightarrow> outcome,
                 ReduceCb Acc newEnv, put_frame newEnv fy h) \<and>
         (\<forall>a1. fold_acc Acc newEnv h a items = Inr a1 \<longrightarrow>
            Vars fy = [accEnvKey \<mapsto> a1] \<and> Current fy = None)"
  using assms
proof (induction items arbitrary: fx a)
  case Nil
  then show ?case by auto
next
  case (Cons env items)
  show ?case
  proof (cases "apply_acc Acc newEnv h a env")
    case (Inl err)
    then show ?thesis
      using call_cb_ReduceCb [OF Cons.prems, of vm Acc newEnv env h]
      by (auto simp del: call_cb.simps)
  next
    case (Inr a1)
    let ?fx = "\<lparr>Vars = [accEnvKey \<mapsto> a1], Current = None, Outer = Some env\<rparr>"
    have "Vars ?fx = [accEnvKey \<mapsto> a1]" and "Current ?fx = None" by simp_all
    from Cons.IH [OF this] Inr show ?thesis
      using call_cb_ReduceCb [OF Cons.prems, of vm Acc newEnv env h]
      by (auto simp del: call_cb.simps)
  qed
qed

lemma Op_ReduceOperator_Source:
  assumes "new_environment h = (newEnv, hn)" and "Seed hn newEnv = Inr seed"
  shows "\<exists>fy. Op vm (ReduceOperator Seed Acc (Source items outcome)) h =
           Some (case outcome of
                   Some e \<Rightarrow>
                     (case fold_acc Acc newEnv hn seed items of Inl err \<Rightarrow> Inl err | Inr a \<Rightarrow> Inl e)
                 | None \<Rightarrow>
                     (case fold_acc Acc newEnv hn seed items of
                        Inl err \<Rightarrow> Inl err
                      | Inr a \<Rightarrow> Inr (ReduceFn newEnv)),
                 put_frame newEnv fy hn) \<and>
         (\<forall>a. fold_acc Acc newEnv hn seed items = Inr a \<longrightarrow>
            Vars fy = [accEnvKey \<mapsto> a] \<and> Current fy = None)"
proof -
  let ?fx = "\<lparr>Vars = [accEnvKey \<mapsto> seed], Current = None, Outer = None\<rparr>"
  from assms(1) have "frames hn newEnv = zero_environment"
    by (simp add: new_environment_frame)
  then have s: "env_Set newEnv accEnvKey seed hn = put_frame newEnv ?fx hn"
    by (simp add: env_Set_def zero_environment_def)
  have "Vars ?fx = [accEnvKey \<mapsto> seed]" and "Current ?fx = None" by simp_all
  from iterate_source_ReduceCb [OF this, of vm items outcome Acc newEnv hn]
  obtain fy where
    it: "iterate_source vm items outcome (ReduceCb Acc newEnv) (put_frame newEnv ?fx hn) =
           Some (case fold_acc Acc newEnv hn seed items of Inl err \<Rightarrow> Some err | Inr a1 \<Rightarrow> outcome,
                 ReduceCb Acc newEnv, put_frame newEnv fy hn)"
    and fy: "\<forall>a1. fold_acc Acc newEnv hn seed items = Inr a1 \<longrightarrow>
            Vars fy = [accEnvKey \<mapsto> a1] \<and> Current fy = None"
    by blast
  have "Op vm (ReduceOperator Seed Acc (Source items outcome)) h =
           Some (case outcome of
                   Some e \<Rightarrow>
                     (case fold_acc Acc newEnv hn seed items of Inl err \<Rightarrow> Inl err | Inr a \<Rightarrow> Inl e)
                 | None \<Rightarrow>
                     (case fold_acc Acc newEnv hn seed items of
                        Inl err \<Rightarrow> Inl err
                      | Inr a \<Rightarrow> Inr (ReduceFn newEnv)),
                 put_frame newEnv fy hn)"
    using assms s it by (simp split: sum.splits option.splits)
  with fy show ?thesis by blast
qed










lemma example_sum_step:
  assumes "row < 5"
  shows "apply_acc example_sum 5 (snd (new_environment example_rows)) (IntegerValue a) row =
           Inr (IntegerValue (a + of_nat (Suc row)))"
  using assms
  by (simp add: apply_acc_def example_sum_def acc_frame_def env_Get_local frames_put_frame
      new_environment_def example_rows_def)



subsection \<open>Errors while a Reduce is built\<close>

lemma fails_in_callback_StreamCb:
  assumes "fails_in_callback vm (StreamCb opFn fn) env h e"
  shows "\<exists>env1 opFn1 h1. call vm opFn env h = Some (Inr (Some env1), opFn1, h1) \<and>
           fails_in_callback vm fn env1 h1 e"
proof (cases "call vm opFn env h")
  case None
  with assms show ?thesis by (simp del: call.simps)
next
  case (Some p)
  obtain r opFn1 h1 where p: "p = (r, opFn1, h1)" by (cases p) auto
  show ?thesis
  proof (cases r)
    case (Inl err)
    with assms Some p show ?thesis by (simp del: call.simps)
  next
    case (Inr out)
    with assms Some p show ?thesis by (cases out) (simp_all del: call.simps)
  qed
qed

lemma fails_in_source_Cons:
  assumes "fails_in_source vm (env # rest) fn h e" and "\<not> fails_in_callback vm fn env h e"
  shows "\<exists>fn1 h1. call_cb vm fn env h = Some (None, fn1, h1) \<and> fails_in_source vm rest fn1 h1 e"
proof (cases "call_cb vm fn env h")
  case None
  with assms show ?thesis by (simp del: call_cb.simps)
next
  case (Some p)
  obtain err fn1 h1 where p: "p = (err, fn1, h1)" by (cases p) auto
  with assms Some show ?thesis by (cases err) (simp_all del: call_cb.simps)
qed

lemma fails_in_drain_Stream:
  assumes "fails_in_drain vm (Stream it op) fn h e"
  shows "\<exists>opFn h1. Op vm op h = Some (Inr opFn, h1) \<and>
           fails_in_drain vm it (StreamCb opFn fn) h1 e"
proof (cases "Op vm op h")
  case None
  with assms show ?thesis by (simp del: Op.simps)
next
  case (Some p)
  obtain r h1 where p: "p = (r, h1)" by (cases p) auto
  with assms Some show ?thesis by (cases r) (simp_all del: Op.simps)
qed

lemma fails_in_callback_error:
  "fails_in_callback vm cb env h e \<Longrightarrow> \<exists>cb1 h1. call_cb vm cb env h = Some (Some e, cb1, h1)"
proof (induction cb arbitrary: env h)
  case (ReduceCb Acc newEnv)
  then show ?case by (simp add: Let_def)
next
  case (StreamCb opFn fn)
  from fails_in_callback_StreamCb [OF StreamCb.prems] obtain env1 opFn1 h1 where
    c: "call vm opFn env h = Some (Inr (Some env1), opFn1, h1)"
    and f: "fails_in_callback vm fn env1 h1 e"
    by blast
  from StreamCb.IH [OF f] obtain cb1 h2 where
    "call_cb vm fn env1 h1 = Some (Some e, cb1, h2)" by blast
  with c show ?case by (simp del: call.simps)
next
  case (Collect seen)
  then show ?case by simp
qed

lemma fails_in_source_error:
  "fails_in_source vm items fn h e \<Longrightarrow>
     \<exists>fn1 h1. iterate_source vm items outcome fn h = Some (Some e, fn1, h1)"
proof (induction items arbitrary: fn h)
  case Nil
  then show ?case by simp
next
  case (Cons env rest)
  show ?case
  proof (cases "fails_in_callback vm fn env h e")
    case True
    from fails_in_callback_error [OF this] show ?thesis
      by (auto simp del: call_cb.simps)
  next
    case False
    from fails_in_source_Cons [OF Cons.prems this] obtain fn1 h1 where
      c: "call_cb vm fn env h = Some (None, fn1, h1)"
      and f: "fails_in_source vm rest fn1 h1 e"
      by blast
    from Cons.IH [OF f] c show ?thesis
      by (auto simp del: call_cb.simps)
  qed
qed

lemma fails_in_drain_error:
  "fails_in_drain vm s fn h e \<Longrightarrow> e \<noteq> ErrStreamClosed \<Longrightarrow>
     \<exists>fn1 h1. Iterate vm s fn h = Some (Some e, fn1, h1)"
proof (induction vm s fn h e rule: fails_in_drain.induct)
  case (1 vm items outcome fn h e)
  then show ?case using fails_in_source_error [of vm items fn h e outcome] by simp
next
  case (2 vm it op fn h e)
  from fails_in_drain_Stream [OF "2.prems"(1)] obtain opFn h1 where
    o: "Op vm op h = Some (Inr opFn, h1)"
    and f: "fails_in_drain vm it (StreamCb opFn fn) h1 e"
    by blast
  from "2.IH" [OF o refl refl f "2.prems"(2)] obtain fn1 h2 where
    "Iterate vm it (StreamCb opFn fn) h1 = Some (Some e, fn1, h2)" by blast
  with o "2.prems"(2) show ?case by (simp del: Op.simps)
qed

lemma fails_in_drain_closed:
  "fails_in_drain vm s fn h ErrStreamClosed \<Longrightarrow>
     \<exists>err fn1 h1. Iterate vm s fn h = Some (err, fn1, h1) \<and>
        (err = None \<or> err = Some ErrStreamClosed)"
proof (induction vm s fn h "ErrStreamClosed" rule: fails_in_drain.induct)
  case (1 vm items outcome fn h)
  then show ?case using fails_in_source_error [of vm items fn h ErrStreamClosed outcome] by auto
next
  case (2 vm it op fn h)
  from fails_in_drain_Stream [OF "2.prems"(1)] obtain opFn h1 where
    o: "Op vm op h = Some (Inr opFn, h1)"
    and f: "fails_in_drain vm it (StreamCb opFn fn) h1 ErrStreamClosed"
    by blast
  from "2.hyps" [OF o refl refl f] obtain err fn1 h2 where
    "Iterate vm it (StreamCb opFn fn) h1 = Some (err, fn1, h2)"
    and "err = None \<or> err = Some ErrStreamClosed" by blast
  with o show ?case by (auto simp del: Op.simps)
qed

lemma fails_in_drain_piped_closed:
  assumes "fails_in_drain vm (Stream it op) fn h ErrStreamClosed"
  shows "\<exists>fn1 h1. Iterate vm (Stream it op) fn h = Some (None, fn1, h1)"
proof -
  from fails_in_drain_Stream [OF assms] obtain opFn h1 where
    o: "Op vm op h = Some (Inr opFn, h1)"
    and f: "fails_in_drain vm it (StreamCb opFn fn) h1 ErrStreamClosed"
    by blast
  from fails_in_drain_closed [OF f] obtain err fn1 h2 where
    "Iterate vm it (StreamCb opFn fn) h1 = Some (err, fn1, h2)"
    and "err = None \<or> err = Some ErrStreamClosed" by blast
  with o show ?thesis by (auto simp del: Op.simps)
qed

text \<open>
  An accumulator that fails with the stream-closed signal, over a sub-stream piped
  through a Filter that lets every row pass: the accumulator fails on the first row,
  the Stream ends the traversal as a success, and \<open>Op\<close> returns a step function.
\<close>

theorem ReduceOperator_closed_accumulator_counterexample:
  "fails_in_drain example_methods
     (Stream (Source [0, 1, 2] None) (FilterOperator example_true))
     (ReduceCb example_closed 5)
     (env_Set 5 accEnvKey (IntegerValue 0) (snd (new_environment example_rows)))
     ErrStreamClosed \<and>
   map_option fst
     (Op example_methods
        (ReduceOperator example_zero example_closed
           (Stream (Source [0, 1, 2] None) (FilterOperator example_true)))
        example_rows) = Some (Inr (ReduceFn 5))"
  by (simp add: new_environment_def example_rows_def example_methods_def example_true_def
      example_closed_def example_zero_def Let_def)

text \<open>
  C6. \<open>Op\<close> of a Reduce returns an error, and no step function, when the seed
  expression fails (that error); when the traversal of the sub-stream returns an error
  (that error, for every sub-stream); when the accumulator expression fails on an
  Environment that the sub-stream delivers, with an error other than the stream-closed
  signal for every sub-stream, and with any error when the sub-stream is a source
  (that error); and when a source ends with an error after the accumulator succeeded
  on all it delivered. When the accumulator fails with the stream-closed signal on an
  Environment delivered by a sub-stream that is a Stream over an operator, the Stream
  ends the traversal as a success and \<open>Op\<close> returns a step function.
\<close>

theorem ReduceOperator_construction_errors:
  assumes "new_environment h = (newEnv, h1)"
  shows
   "(\<forall>e. Seed h1 newEnv = Inl e \<longrightarrow>
       Op vm (ReduceOperator Seed Acc s) h = Some (Inl e, h1)) \<and>
    (\<forall>seed e cb h2. Seed h1 newEnv = Inr seed \<and>
       Iterate vm s (ReduceCb Acc newEnv) (env_Set newEnv accEnvKey seed h1) = Some (Some e, cb, h2) \<longrightarrow>
       Op vm (ReduceOperator Seed Acc s) h = Some (Inl e, h2)) \<and>
    (\<forall>seed e. Seed h1 newEnv = Inr seed \<and> fold_acc Acc newEnv h1 seed items = Inl e \<longrightarrow>
       (\<exists>h2. Op vm (ReduceOperator Seed Acc (Source items outcome)) h = Some (Inl e, h2))) \<and>
    (\<forall>seed a e. Seed h1 newEnv = Inr seed \<and> fold_acc Acc newEnv h1 seed items = Inr a \<longrightarrow>
       (\<exists>h2. Op vm (ReduceOperator Seed Acc (Source items (Some e))) h = Some (Inl e, h2))) \<and>
    (\<forall>seed e. Seed h1 newEnv = Inr seed \<and>
       fails_in_drain vm s (ReduceCb Acc newEnv) (env_Set newEnv accEnvKey seed h1) e \<and>
       (e \<noteq> ErrStreamClosed \<or> (\<exists>rows outcome. s = Source rows outcome)) \<longrightarrow>
       (\<exists>h2. Op vm (ReduceOperator Seed Acc s) h = Some (Inl e, h2))) \<and>
    (\<forall>seed it op. Seed h1 newEnv = Inr seed \<and>
       fails_in_drain vm (Stream it op) (ReduceCb Acc newEnv)
         (env_Set newEnv accEnvKey seed h1) ErrStreamClosed \<longrightarrow>
       (\<exists>h2. Op vm (ReduceOperator Seed Acc (Stream it op)) h =
                Some (Inr (ReduceFn newEnv), h2)))"
proof -
  have sd: "\<forall>e. Seed h1 newEnv = Inl e \<longrightarrow>
       Op vm (ReduceOperator Seed Acc s) h = Some (Inl e, h1)"
    using assms by simp
  have dr: "\<forall>seed e cb h2. Seed h1 newEnv = Inr seed \<and>
       Iterate vm s (ReduceCb Acc newEnv) (env_Set newEnv accEnvKey seed h1) = Some (Some e, cb, h2) \<longrightarrow>
       Op vm (ReduceOperator Seed Acc s) h = Some (Inl e, h2)"
    using assms by simp
  have ac: "\<exists>h2. Op vm (ReduceOperator Seed Acc (Source items outcome)) h = Some (Inl e, h2)"
    if "Seed h1 newEnv = Inr seed \<and> fold_acc Acc newEnv h1 seed items = Inl e" for seed e
    using Op_ReduceOperator_Source [where Seed = Seed and h = h and newEnv = newEnv and hn = h1
        and seed = seed and vm = vm and Acc = Acc and items = items and outcome = outcome]
      assms that
    by (auto simp del: Op.simps split: option.splits)
  have sr: "\<exists>h2. Op vm (ReduceOperator Seed Acc (Source items (Some e))) h = Some (Inl e, h2)"
    if "Seed h1 newEnv = Inr seed \<and> fold_acc Acc newEnv h1 seed items = Inr a" for seed a e
    using Op_ReduceOperator_Source [where Seed = Seed and h = h and newEnv = newEnv and hn = h1
        and seed = seed and vm = vm and Acc = Acc and items = items and outcome = "Some e"]
      assms that
    by (auto simp del: Op.simps)
  have fl: "\<exists>h2. Op vm (ReduceOperator Seed Acc s) h = Some (Inl e, h2)"
    if "Seed h1 newEnv = Inr seed \<and>
       fails_in_drain vm s (ReduceCb Acc newEnv) (env_Set newEnv accEnvKey seed h1) e \<and>
       (e \<noteq> ErrStreamClosed \<or> (\<exists>rows outcome. s = Source rows outcome))" for seed e
  proof -
    from that have sd: "Seed h1 newEnv = Inr seed"
      and f: "fails_in_drain vm s (ReduceCb Acc newEnv) (env_Set newEnv accEnvKey seed h1) e"
      and c: "e \<noteq> ErrStreamClosed \<or> (\<exists>rows outcome. s = Source rows outcome)"
      by blast+
    have "\<exists>fn1 h2. Iterate vm s (ReduceCb Acc newEnv) (env_Set newEnv accEnvKey seed h1) =
            Some (Some e, fn1, h2)"
    proof (cases "e = ErrStreamClosed")
      case False
      with f show ?thesis by (rule fails_in_drain_error)
    next
      case True
      with c obtain rows outcome where "s = Source rows outcome" by blast
      with f show ?thesis
        using fails_in_source_error [of vm rows "ReduceCb Acc newEnv"
            "env_Set newEnv accEnvKey seed h1" e outcome]
        by simp
    qed
    then obtain fn1 h2 where
      "Iterate vm s (ReduceCb Acc newEnv) (env_Set newEnv accEnvKey seed h1) =
         Some (Some e, fn1, h2)" by blast
    with assms sd show ?thesis by simp
  qed
  have cl: "\<exists>h2. Op vm (ReduceOperator Seed Acc (Stream it op)) h =
                Some (Inr (ReduceFn newEnv), h2)"
    if "Seed h1 newEnv = Inr seed \<and>
       fails_in_drain vm (Stream it op) (ReduceCb Acc newEnv)
         (env_Set newEnv accEnvKey seed h1) ErrStreamClosed" for seed it op
  proof -
    from that have sd: "Seed h1 newEnv = Inr seed"
      and f: "fails_in_drain vm (Stream it op) (ReduceCb Acc newEnv)
                (env_Set newEnv accEnvKey seed h1) ErrStreamClosed"
      by blast+
    from fails_in_drain_piped_closed [OF f] obtain fn1 h2 where
      "Iterate vm (Stream it op) (ReduceCb Acc newEnv) (env_Set newEnv accEnvKey seed h1) =
         Some (None, fn1, h2)" by blast
    with assms sd show ?thesis by (simp del: Iterate.simps)
  qed
  show ?thesis using sd dr ac sr fl cl by blast
qed

theorem ReduceOperator_construction_errors_witness:
  "Op example_methods
     (ReduceOperator (\<lambda>h env. Inl (Err ''bad seed'')) example_sum (Source [0, 1] None)) example_rows =
     Some (Inl (Err ''bad seed''), snd (new_environment example_rows)) \<and>
   Op example_methods
     (ReduceOperator (\<lambda>h env. Inr (IntegerValue 0)) example_sum
        (Stream (Source [0, 1] None) (TakeOperator (\<lambda>h env. Inl (Err ''bad count'')))))
     example_rows =
     Some (Inl (Err ''bad count''),
           snd (new_environment (env_Set 5 accEnvKey (IntegerValue 0) (snd (new_environment example_rows))))) \<and>
   (\<exists>h2. Op example_methods
            (ReduceOperator (\<lambda>h env. Inr (TextValue ''zero'')) example_sum (Source [0, 1] None))
            example_rows = Some (Inl (Err ''no accumulator''), h2)) \<and>
   (\<exists>h2. Op example_methods
            (ReduceOperator (\<lambda>h env. Inr (IntegerValue 0)) example_sum
               (Source [0, 1] (Some (Err ''read failed''))))
            example_rows = Some (Inl (Err ''read failed''), h2)) \<and>
   (\<exists>h2. Op example_methods
            (ReduceOperator (\<lambda>h env. Inr (TextValue ''zero'')) example_sum
               (Stream (Source [0, 1] None) (FilterOperator example_true)))
            example_rows = Some (Inl (Err ''no accumulator''), h2)) \<and>
   (\<exists>h2. Op example_methods
            (ReduceOperator example_zero example_closed
               (Stream (Source [0, 1] None) (FilterOperator example_true)))
            example_rows = Some (Inr (ReduceFn 5), h2))"
proof -
  have a: "new_environment example_rows = (5, snd (new_environment example_rows))"
    by (simp add: new_environment_def example_rows_def)
  note T = ReduceOperator_construction_errors [OF a, where vm = example_methods and Acc = example_sum]
  have seed: "Op example_methods
     (ReduceOperator (\<lambda>h env. Inl (Err ''bad seed'')) example_sum (Source [0, 1] None)) example_rows =
     Some (Inl (Err ''bad seed''), snd (new_environment example_rows))"
    using T [where Seed = "\<lambda>h env. Inl (Err ''bad seed'')" and s = "Source [0, 1] None",
        THEN conjunct1, rule_format, of "Err ''bad seed''"]
    by (simp del: Op.simps)
  have it: "Iterate example_methods
          (Stream (Source [0, 1] None) (TakeOperator (\<lambda>h env. Inl (Err ''bad count''))))
          (ReduceCb example_sum 5)
          (env_Set 5 accEnvKey (IntegerValue 0) (snd (new_environment example_rows))) =
        Some (Some (Err ''bad count''), ReduceCb example_sum 5,
              snd (new_environment (env_Set 5 accEnvKey (IntegerValue 0)
                                       (snd (new_environment example_rows)))))"
    by (simp add: new_environment_def)
  have drain: "Op example_methods
     (ReduceOperator (\<lambda>h env. Inr (IntegerValue 0)) example_sum
        (Stream (Source [0, 1] None) (TakeOperator (\<lambda>h env. Inl (Err ''bad count'')))))
     example_rows =
     Some (Inl (Err ''bad count''),
           snd (new_environment (env_Set 5 accEnvKey (IntegerValue 0) (snd (new_environment example_rows)))))"
    using T [where Seed = "\<lambda>h env. Inr (IntegerValue 0)"
        and s = "Stream (Source [0, 1] None) (TakeOperator (\<lambda>h env. Inl (Err ''bad count'')))",
        THEN conjunct2, THEN conjunct1, rule_format,
        of "IntegerValue 0" "Err ''bad count''" "ReduceCb example_sum 5"] it
    by (simp del: Op.simps Iterate.simps)
  have bad: "apply_acc example_sum 5 (snd (new_environment example_rows)) (TextValue ''zero'') 0 =
               Inl (Err ''no accumulator'')"
    by (simp add: apply_acc_def example_sum_def acc_frame_def env_Get_local frames_put_frame)
  have acc: "\<exists>h2. Op example_methods
            (ReduceOperator (\<lambda>h env. Inr (TextValue ''zero'')) example_sum (Source [0, 1] None))
            example_rows = Some (Inl (Err ''no accumulator''), h2)"
    using T [where Seed = "\<lambda>h env. Inr (TextValue ''zero'')" and items = "[0, 1]" and outcome = None,
        THEN conjunct2, THEN conjunct2, THEN conjunct1, rule_format,
        of "TextValue ''zero''" "Err ''no accumulator''"] bad
    by (simp del: Op.simps)
  have good: "fold_acc example_sum 5 (snd (new_environment example_rows)) (IntegerValue 0) [0, 1] =
                Inr (IntegerValue 3)"
    by (simp add: example_sum_step)
  have src: "\<exists>h2. Op example_methods
            (ReduceOperator (\<lambda>h env. Inr (IntegerValue 0)) example_sum
               (Source [0, 1] (Some (Err ''read failed''))))
            example_rows = Some (Inl (Err ''read failed''), h2)"
    using T [where Seed = "\<lambda>h env. Inr (IntegerValue 0)" and items = "[0, 1]",
        THEN conjunct2, THEN conjunct2, THEN conjunct2, THEN conjunct1, rule_format,
        of "IntegerValue 0" "IntegerValue 3" "Err ''read failed''"] good
    by (simp del: Op.simps)
  have pf: "fails_in_drain example_methods
              (Stream (Source [0, 1] None) (FilterOperator example_true))
              (ReduceCb example_sum 5)
              (env_Set 5 accEnvKey (TextValue ''zero'') (snd (new_environment example_rows)))
              (Err ''no accumulator'')"
    by (simp add: example_true_def example_methods_def example_sum_def env_Get_local
        env_SetOuter_def env_Set_def frames_put_frame)
  have piped: "\<exists>h2. Op example_methods
            (ReduceOperator (\<lambda>h env. Inr (TextValue ''zero'')) example_sum
               (Stream (Source [0, 1] None) (FilterOperator example_true)))
            example_rows = Some (Inl (Err ''no accumulator''), h2)"
    using T [where Seed = "\<lambda>h env. Inr (TextValue ''zero'')"
        and s = "Stream (Source [0, 1] None) (FilterOperator example_true)",
        THEN conjunct2, THEN conjunct2, THEN conjunct2, THEN conjunct2, THEN conjunct1,
        rule_format, of "TextValue ''zero''" "Err ''no accumulator''"] pf
    by (simp del: Op.simps fails_in_drain.simps)
  have cf: "fails_in_drain example_methods
              (Stream (Source [0, 1] None) (FilterOperator example_true))
              (ReduceCb example_closed 5)
              (env_Set 5 accEnvKey (IntegerValue 0) (snd (new_environment example_rows)))
              ErrStreamClosed"
    by (simp add: example_true_def example_methods_def example_closed_def)
  have closed: "\<exists>h2. Op example_methods
            (ReduceOperator example_zero example_closed
               (Stream (Source [0, 1] None) (FilterOperator example_true)))
            example_rows = Some (Inr (ReduceFn 5), h2)"
    using ReduceOperator_construction_errors [OF a, where vm = example_methods
        and Acc = example_closed and Seed = example_zero,
        THEN conjunct2, THEN conjunct2, THEN conjunct2, THEN conjunct2, THEN conjunct2,
        rule_format, of "IntegerValue 0" "Source [0, 1] None" "FilterOperator example_true"] cf
    by (simp add: example_zero_def del: Op.simps fails_in_drain.simps)
  show ?thesis using seed drain acc src piped closed by (simp del: Op.simps)
qed

subsection \<open>The reserved names of GroupBy and Reduce\<close>




subsection \<open>A pipeline\<close>

text \<open>
  The rows 1 to 5 through skip(1), take(2) and map(x * 10): the consumer is handed the
  values 20 and 30, each in the output frame of the Map, whose outer reference is the
  row.
\<close>

lemma pipeline_example:
  "\<exists>h2. Iterate example_methods
     (Stream (Stream (Stream (Source [0, 1, 2, 3, 4] None)
                (SkipOperator (\<lambda>h env. Inr (IntegerValue 1))))
             (TakeOperator (\<lambda>h env. Inr (IntegerValue 2))))
        (MapOperator example_times_ten))
     (Collect []) example_rows =
   Some (None,
         Collect [(5, \<lparr>Vars = Map.empty, Current = Some (IntegerValue 20), Outer = Some 1\<rparr>),
                  (5, \<lparr>Vars = Map.empty, Current = Some (IntegerValue 30), Outer = Some 2\<rparr>)],
         h2)"
  by (simp add: new_environment_def example_rows_def example_times_ten_def zero_environment_def
      env_SetOuter_def env_SetCurrentValue_def put_frame_def word_sless_alt)

end
